theory Spec2Isabelle
  imports Complex_Main
begin

section \<open>Data model (types.ts)\<close>

text \<open>
  A descriptor is a \<^verbatim>\<open>number[]\<close> (128 floats in the running system).  JavaScript numbers
  are modelled as mathematical reals; timestamps (\<^verbatim>\<open>Date.now()\<close>, whole epoch milliseconds)
  and array indices as integers.
\<close>

type_synonym descriptor = "real list"

text \<open>
  Field names follow the interfaces of \<^verbatim>\<open>types.ts\<close>; \<^verbatim>\<open>id\<close>, and the \<^verbatim>\<open>name\<close> and
  \<^verbatim>\<open>confidence\<close> fields that two interfaces share, carry the interface as a suffix.
\<close>

record PersonProfile =
  id_profile :: string
  name :: string
  images :: "string list"
  createdAt :: int
  descriptors :: "descriptor list"

record RecognitionLog =
  id_log :: string
  timestamp :: int
  personName :: string
  confidence_log :: int
  isUnknown :: bool

section \<open>Descriptor store and recognition log (useFaceSystem)\<close>

text \<open>
  \<^verbatim>\<open>Array.prototype.splice(start, deleteCount)\<close> restricted to its effect on the array:
  a negative start counts from the end and is clamped at 0, a start beyond the end is
  clamped to the length, and the delete count is clamped to what is left.
\<close>

definition splice_js :: "int \<Rightarrow> int \<Rightarrow> 'a list \<Rightarrow> 'a list" where
  "splice_js start deleteCount xs =
     (let len = int (length xs);
          actualStart = (if start < 0 then max (len + start) 0 else min start len);
          actualDeleteCount = min (max deleteCount 0) (len - actualStart)
      in take (nat actualStart) xs @ drop (nat (actualStart + actualDeleteCount)) xs)"

definition removeSampleFromProfile ::
  "string \<Rightarrow> int \<Rightarrow> PersonProfile list \<Rightarrow> PersonProfile list" where
  "removeSampleFromProfile profileId index prev =
     map (\<lambda>p. if id_profile p = profileId
              then p\<lparr>images := splice_js index 1 (images p),
                     descriptors := splice_js index 1 (descriptors p)\<rparr>
              else p) prev"

text \<open>
  \<^verbatim>\<open>addProfile\<close>, with the fresh \<^verbatim>\<open>uuidv4()\<close> and \<^verbatim>\<open>Date.now()\<close> as arguments.  Without a
  descriptor the profile starts with one image and no descriptor.
\<close>

definition addProfile ::
  "string \<Rightarrow> string \<Rightarrow> int \<Rightarrow> string \<Rightarrow> descriptor option \<Rightarrow> PersonProfile list \<Rightarrow> PersonProfile list" where
  "addProfile newId nm now img descriptor prev =
     prev @ [\<lparr>id_profile = newId, name = nm, images = [img], createdAt = now,
              descriptors = (case descriptor of Some d \<Rightarrow> [d] | None \<Rightarrow> [])\<rparr>]"

text \<open>
  The updater passed to \<^verbatim>\<open>setLogs\<close>.  The two snapshots of the hook differ only in the
  literal of the debounce window (1500 ms and, in the older one, 1000 ms), so the body is
  written once with the literal as an argument.
\<close>

definition addLogWithin :: "int \<Rightarrow> RecognitionLog \<Rightarrow> RecognitionLog list \<Rightarrow> RecognitionLog list" where
  "addLogWithin window logEntry prev =
     (case prev of
        lastLog # _ \<Rightarrow>
          if personName lastLog = personName logEntry
             \<and> timestamp logEntry - timestamp lastLog < window
          then prev
          else take 200 (logEntry # prev)
      | [] \<Rightarrow> take 200 (logEntry # prev))"

definition addLog :: "RecognitionLog \<Rightarrow> RecognitionLog list \<Rightarrow> RecognitionLog list" where
  "addLog = addLogWithin 1500"

definition addLog_legacy :: "RecognitionLog \<Rightarrow> RecognitionLog list \<Rightarrow> RecognitionLog list" where
  "addLog_legacy = addLogWithin 1000"

text \<open>The log state after a sequence of \<^verbatim>\<open>addLog\<close> calls, starting from \<^verbatim>\<open>useState([])\<close>.\<close>

definition runLogs :: "int \<Rightarrow> RecognitionLog list \<Rightarrow> RecognitionLog list" where
  "runLogs window events = foldl (\<lambda>logs e. addLogWithin window e logs) [] events"

section \<open>Vision service: data\<close>

text \<open>
  \<^verbatim>\<open>new faceapi.FaceMatcher(labeledDescriptors, threshold)\<close>: the handle is the pair of
  constructor arguments, each labelled set being a profile name with its vectors.
\<close>

record FaceMatcher =
  labeledDescriptors :: "(string \<times> descriptor list) list"
  distanceThreshold :: real

record FaceMatch =
  label :: string
  distance :: real

record FaceDetection =
  identified :: bool
  name_fd :: string
  confidence :: int
  box_2d :: "real list"

record Box =
  x_box :: real
  y_box :: real
  width_box :: real
  height_box :: real

text \<open>One element of what \<^verbatim>\<open>faceapi.detectAllFaces(video)...\<close> resolves to.\<close>

record Detection =
  descriptor_of :: descriptor
  box_of :: Box

record Video =
  paused :: bool
  ended :: bool
  videoWidth :: nat
  videoHeight :: nat

datatype error = FrameClassificationError

datatype attempt_outcome = Loaded | LoadError | Timeout

text \<open>
  What \<^verbatim>\<open>loadModels\<close> returns: a fresh \<^verbatim>\<open>Promise.resolve(b)\<close>, or the promise object held in
  \<^verbatim>\<open>loadingPromise\<close>, identified by a number.
\<close>

datatype promise = Immediate bool | Cached nat

text \<open>
  The module's singleton variables, the global \<^verbatim>\<open>faceapi\<close> being present or not, and the
  part of the JavaScript run time the loader needs: the next promise identity, the async
  bodies suspended at their \<^verbatim>\<open>await\<close> (promise and the sources from the awaited one on),
  the settled promises with their values, the sources asked for the critical models so
  far, and the background loads of the demographics models still running.
\<close>

record vision =
  faceapi_defined :: bool
  isCriticalModelsLoaded :: bool
  isDemographicsLoaded :: bool
  faceMatcher :: "FaceMatcher option"
  lastDescriptorCount :: int
  loadingPromise :: "nat option"
  nextPromise :: nat
  suspended :: "(nat \<times> string list) list"
  settled :: "(nat \<times> bool) list"
  requested :: "string list"
  background :: "string list"

definition initial :: "bool \<Rightarrow> vision" where
  "initial present =
     \<lparr>faceapi_defined = present, isCriticalModelsLoaded = False, isDemographicsLoaded = False,
      faceMatcher = None, lastDescriptorCount = - 1, loadingPromise = None,
      nextPromise = 0, suspended = [], settled = [], requested = [], background = []\<rparr>"

definition MODEL_URLS :: "string list" where
  "MODEL_URLS =
     [''https://cdn.jsdelivr.net/gh/cgarciagl/face-api.js@0.22.2/weights'',
      ''https://justadudewhohacks.github.io/face-api.js/models'',
      ''https://cdn.jsdelivr.net/gh/justadudewhohacks/face-api.js@master/weights'']"

section \<open>Resource loader\<close>

text \<open>
  \<^verbatim>\<open>loadDemographicsBackground(url)\<close> is called without \<^verbatim>\<open>await\<close>: it starts its requests and
  suspends; its settlement later sets \<^verbatim>\<open>isDemographicsLoaded\<close>.
\<close>

definition loadDemographicsBackground :: "string \<Rightarrow> vision \<Rightarrow> vision" where
  "loadDemographicsBackground url s = s\<lparr>background := background s @ [url]\<rparr>"

definition demographicsSettled :: "string \<Rightarrow> bool \<Rightarrow> vision \<Rightarrow> vision" where
  "demographicsSettled url ok s =
     (if url \<in> set (background s)
      then s\<lparr>background := remove1 url (background s), isDemographicsLoaded := ok\<rparr>
      else s)"

text \<open>
  The \<^verbatim>\<open>for\<close> loop of the async body of \<^verbatim>\<open>loadModels\<close>, entered with the sources still to
  try: it asks the next source and suspends at the \<^verbatim>\<open>await\<close>, or, with no source left,
  clears \<^verbatim>\<open>loadingPromise\<close> and resolves its promise to \<^verbatim>\<open>false\<close>.
\<close>

fun loadLoop :: "nat \<Rightarrow> string list \<Rightarrow> vision \<Rightarrow> vision" where
  "loadLoop pr [] s = s\<lparr>loadingPromise := None, settled := (pr, False) # settled s\<rparr>"
| "loadLoop pr (url # urls) s =
     s\<lparr>requested := requested s @ [url], suspended := (pr, url # urls) # suspended s\<rparr>"

text \<open>
  The awaited \<^verbatim>\<open>withTimeout(TIMEOUT_MS, Promise.all([...]))\<close> of the body of promise \<open>pr\<close>
  settles: fulfilled (\<open>Loaded\<close>), rejected by a load (\<open>LoadError\<close>) or rejected by the
  timer (\<open>Timeout\<close>).  Both rejections land in the same \<^verbatim>\<open>catch\<close> and the loop goes on.
\<close>

definition resume :: "nat \<Rightarrow> attempt_outcome \<Rightarrow> vision \<Rightarrow> vision" where
  "resume pr outcome s =
     (case map_of (suspended s) pr of
        None \<Rightarrow> s
      | Some [] \<Rightarrow> s
      | Some (url # urls) \<Rightarrow>
          (let s1 = s\<lparr>suspended := filter (\<lambda>e. fst e \<noteq> pr) (suspended s)\<rparr>
           in if outcome = Loaded
              then (let s2 = loadDemographicsBackground url (s1\<lparr>isCriticalModelsLoaded := True\<rparr>)
                    in s2\<lparr>settled := (pr, True) # settled s2\<rparr>)
              else loadLoop pr urls s1))"

text \<open>
  \<^verbatim>\<open>loadModels\<close>.  The async body runs synchronously up to its first \<^verbatim>\<open>await\<close> before the
  promise it returns is assigned to \<^verbatim>\<open>loadingPromise\<close>.
\<close>

definition loadModels :: "vision \<Rightarrow> promise \<times> vision" where
  "loadModels s =
     (if \<not> faceapi_defined s then (Immediate False, s)
      else if isCriticalModelsLoaded s then (Immediate True, s)
      else (case loadingPromise s of
              Some pr \<Rightarrow> (Cached pr, s)
            | None \<Rightarrow>
                (let pr = nextPromise s;
                     s1 = loadLoop pr MODEL_URLS (s\<lparr>nextPromise := Suc pr\<rparr>)
                 in (Cached pr, s1\<lparr>loadingPromise := Some pr\<rparr>))))"

text \<open>The body of one acquisition fed the outcomes of its successive attempts.\<close>

fun resumeAll :: "nat \<Rightarrow> attempt_outcome list \<Rightarrow> vision \<Rightarrow> vision" where
  "resumeAll pr [] s = s"
| "resumeAll pr (outcome # outcomes) s = resumeAll pr outcomes (resume pr outcome s)"

section \<open>Matcher cache\<close>

definition currentDescriptorCount :: "PersonProfile list \<Rightarrow> int" where
  "currentDescriptorCount profiles =
     foldl (\<lambda>acc p. acc + int (length (descriptors p))) 0 profiles"

text \<open>
  The \<^verbatim>\<open>forEach\<close> that collects a \<^verbatim>\<open>LabeledFaceDescriptors(p.name, vectors)\<close> for every
  profile with at least one descriptor (the conversion to \<^verbatim>\<open>Float32Array\<close> is the identity
  on reals).
\<close>

definition labeledDescriptorsOf :: "PersonProfile list \<Rightarrow> (string \<times> descriptor list) list" where
  "labeledDescriptorsOf profiles =
     map (\<lambda>p. (name p, descriptors p)) (filter (\<lambda>p. length (descriptors p) > 0) profiles)"

definition updateFaceMatcher :: "vision \<Rightarrow> PersonProfile list \<Rightarrow> real \<Rightarrow> vision" where
  "updateFaceMatcher s profiles threshold =
     (if \<not> faceapi_defined s \<or> \<not> isCriticalModelsLoaded s then s
      else if currentDescriptorCount profiles = lastDescriptorCount s \<and> faceMatcher s \<noteq> None
      then s
      else s\<lparr>faceMatcher :=
                (if length (labeledDescriptorsOf profiles) > 0
                 then Some \<lparr>labeledDescriptors = labeledDescriptorsOf profiles,
                            distanceThreshold = threshold\<rparr>
                 else None),
              lastDescriptorCount := currentDescriptorCount profiles\<rparr>)"

text \<open>What the rebuild branch of \<^verbatim>\<open>updateFaceMatcher\<close> stores for given profiles and threshold.\<close>

definition freshMatcher :: "PersonProfile list \<Rightarrow> real \<Rightarrow> FaceMatcher option" where
  "freshMatcher profiles threshold =
     (if length (labeledDescriptorsOf profiles) > 0
      then Some \<lparr>labeledDescriptors = labeledDescriptorsOf profiles, distanceThreshold = threshold\<rparr>
      else None)"

section \<open>Classifier\<close>

text \<open>
  Modelled from the spec: the nearest-neighbour search is \<^verbatim>\<open>FaceMatcher.findBestMatch\<close> of
  face-api.js, which the page loads from a CDN and the sources only declare
  (\<^verbatim>\<open>declare const faceapi: any\<close>).  The next four definitions follow section 4.3 of the
  specification: the Euclidean distance from the probe to every labelled vector of the
  handle is taken, and the minimum is returned with the label owning it.
\<close>

text \<open>
  Modelled from the spec: the Euclidean distance of two vectors, missing with the library.
  The data model has all vectors of one length; on vectors of different lengths the sum
  runs over the common dimensions.
\<close>

definition euclideanDistance :: "descriptor \<Rightarrow> descriptor \<Rightarrow> real" where
  "euclideanDistance u v = sqrt (\<Sum>(a, b)\<leftarrow>zip u v. (a - b)\<^sup>2)"

text \<open>
  Modelled from the spec: the flatten step over the handle's labelled sets, missing with
  the library; every vector paired with its label, in the order of the handle.
\<close>

definition flatten :: "FaceMatcher \<Rightarrow> (string \<times> descriptor) list" where
  "flatten m = concat (map (\<lambda>(l, vs). map (\<lambda>v. (l, v)) vs) (labeledDescriptors m))"

text \<open>
  Modelled from the spec: the scan for the minimum, missing with the library.  A later
  vector replaces the best so far only when strictly closer, so the first seen wins a tie.
\<close>

fun nearest :: "descriptor \<Rightarrow> FaceMatch \<Rightarrow> (string \<times> descriptor) list \<Rightarrow> FaceMatch" where
  "nearest q best [] = best"
| "nearest q best ((l, v) # rest) =
     nearest q (if euclideanDistance q v < distance best
                then \<lparr>label = l, distance = euclideanDistance q v\<rparr>
                else best) rest"

text \<open>
  Modelled from the spec: \<^verbatim>\<open>findBestMatch\<close> itself, missing with the library.  A handle
  without any vector has no best match: the call fails, which \<^verbatim>\<open>detectFacesReal\<close> catches.
\<close>

definition findBestMatch :: "FaceMatcher \<Rightarrow> descriptor \<Rightarrow> error + FaceMatch" where
  "findBestMatch m q =
     (case flatten m of
        [] \<Rightarrow> Inl FrameClassificationError
      | (l, v) # rest \<Rightarrow> Inr (nearest q \<lparr>label = l, distance = euclideanDistance q v\<rparr> rest))"

text \<open>
  The branch on the best match inside the \<^verbatim>\<open>map\<close> callback of \<^verbatim>\<open>detectFacesReal\<close>:
  identified, name and confidence.  The quotient is only formed where
  \<open>distance < threshold\<close>, so for a distance that is not negative the threshold is positive
  there.
\<close>

definition matchResult :: "real \<Rightarrow> FaceMatch \<Rightarrow> bool \<times> string \<times> int" where
  "matchResult threshold bestMatch =
     (if distance bestMatch < threshold
      then (True, label bestMatch, \<lfloor>max 0 (1 - distance bestMatch / threshold) * 100\<rfloor>)
      else (False, ''Unknown'', \<lfloor>(1 - min 1 (distance bestMatch)) * 100\<rfloor>))"

definition matchFace ::
  "FaceMatcher option \<Rightarrow> real \<Rightarrow> descriptor \<Rightarrow> error + bool \<times> string \<times> int" where
  "matchFace matcher threshold probe =
     (case matcher of
        None \<Rightarrow> Inr (False, ''Unknown'', 0)
      | Some m \<Rightarrow>
          (case findBestMatch m probe of
             Inl e \<Rightarrow> Inl e
           | Inr bestMatch \<Rightarrow> Inr (matchResult threshold bestMatch)))"


definition normalizeBox :: "Video \<Rightarrow> Box \<Rightarrow> real list" where
  "normalizeBox video box =
     (let vW = (if videoWidth video = 0 then 640 else real (videoWidth video));
          vH = (if videoHeight video = 0 then 480 else real (videoHeight video));
          scaleX = (if vW > 0 then 1000 / vW else 1);
          scaleY = (if vH > 0 then 1000 / vH else 1)
      in [y_box box * scaleY, x_box box * scaleX,
          (y_box box + height_box box) * scaleY, (x_box box + width_box box) * scaleX])"

text \<open>
  The \<^verbatim>\<open>map\<close> callback.  The optional age, gender and expression fields do not enter
  identified, name or confidence and are left out.
\<close>

definition detectOne ::
  "FaceMatcher option \<Rightarrow> Video \<Rightarrow> real \<Rightarrow> Detection \<Rightarrow> error + FaceDetection" where
  "detectOne matcher video threshold d =
     (case matchFace matcher threshold (descriptor_of d) of
        Inl e \<Rightarrow> Inl e
      | Inr (ident, nm, conf) \<Rightarrow>
          Inr \<lparr>identified = ident, name_fd = nm, confidence = conf,
               box_2d = normalizeBox video (box_of d)\<rparr>)"

fun mapResults :: "('a \<Rightarrow> error + 'b) \<Rightarrow> 'a list \<Rightarrow> error + 'b list" where
  "mapResults f [] = Inr []"
| "mapResults f (a # as) =
     (case f a of
        Inl e \<Rightarrow> Inl e
      | Inr b \<Rightarrow> (case mapResults f as of Inl e \<Rightarrow> Inl e | Inr bs \<Rightarrow> Inr (b # bs)))"

text \<open>
  \<^verbatim>\<open>detectFacesReal\<close>, with the detections the awaited face-api task resolves to as an
  argument (a task that rejects leaves the frame empty and the state untouched, like an
  empty list of detections).  Any exception inside the \<^verbatim>\<open>try\<close> makes the frame yield the
  empty list.  The guard is read before the \<^verbatim>\<open>await\<close> and the rest runs after it; as
  \<^verbatim>\<open>isCriticalModelsLoaded\<close> is never reset, one step on the state at resumption covers both.
  The parameter default \<^verbatim>\<open>threshold = 0.55\<close> is left to the caller.
\<close>

definition detectFacesReal ::
  "vision \<Rightarrow> Video option \<Rightarrow> Detection list \<Rightarrow> PersonProfile list \<Rightarrow> real
     \<Rightarrow> FaceDetection list \<times> vision" where
  "detectFacesReal s video detections profiles threshold =
     (case video of
        None \<Rightarrow> ([], s)
      | Some v \<Rightarrow>
          if \<not> isCriticalModelsLoaded s \<or> paused v \<or> ended v \<or> \<not> faceapi_defined s then ([], s)
          else if length detections = 0 then ([], s)
          else (let s' = updateFaceMatcher s profiles threshold
                in case mapResults (detectOne (faceMatcher s') v threshold) detections of
                     Inl e \<Rightarrow> ([], s')
                   | Inr results \<Rightarrow> (results, s')))"



section \<open>Reachable module states\<close>

text \<open>
  The states the module can be in: it starts from \<open>initial\<close>, and each step is a call of
  an exported function (\<^verbatim>\<open>extractFaceDescriptor\<close> touches the state only through
  \<^verbatim>\<open>loadModels\<close>), the settlement of something it awaits, or the arrival of the script
  that defines the global \<^verbatim>\<open>faceapi\<close>.
\<close>

inductive reachable :: "vision \<Rightarrow> bool" where
  start: "reachable (initial present)"
| faceapi_arrives: "reachable s \<Longrightarrow> reachable (s\<lparr>faceapi_defined := True\<rparr>)"
| call_loadModels: "reachable s \<Longrightarrow> reachable (snd (loadModels s))"
| attempt_settles: "reachable s \<Longrightarrow> reachable (resume pr outcome s)"
| demographics_settle: "reachable s \<Longrightarrow> reachable (demographicsSettled url ok s)"
| call_detectFacesReal:
    "reachable s \<Longrightarrow> reachable (snd (detectFacesReal s video detections profiles threshold))"

text \<open>
  Invariants of the reachable states.  For the loader: ready models imply the global is
  present; at most one async body is suspended, and then it belongs to the promise in
  \<^verbatim>\<open>loadingPromise\<close>, which is still pending; with nothing suspended and the models not
  ready, \<^verbatim>\<open>loadingPromise\<close> is clear.  For the matcher cache: before the models are ready
  nothing was built, and a handle exists exactly when the recorded count is positive.
\<close>

definition loader_inv :: "vision \<Rightarrow> bool" where
  "loader_inv s =
     ((isCriticalModelsLoaded s \<longrightarrow> faceapi_defined s) \<and>
      length (suspended s) \<le> 1 \<and>
      (\<forall>pr urls. suspended s = [(pr, urls)] \<longrightarrow>
          urls \<noteq> [] \<and> loadingPromise s = Some pr \<and> faceapi_defined s \<and>
          \<not> isCriticalModelsLoaded s \<and> pr \<notin> fst ` set (settled s) \<and> pr < nextPromise s) \<and>
      (suspended s = [] \<and> \<not> isCriticalModelsLoaded s \<longrightarrow> loadingPromise s = None) \<and>
      (\<forall>pr\<in>fst ` set (settled s). pr < nextPromise s))"

definition matcher_inv :: "vision \<Rightarrow> bool" where
  "matcher_inv s =
     ((\<not> isCriticalModelsLoaded s \<longrightarrow> lastDescriptorCount s = - 1) \<and>
      ((faceMatcher s = None) = (lastDescriptorCount s \<le> 0)) \<and> - 1 \<le> lastDescriptorCount s \<and>
      (\<forall>m. faceMatcher s = Some m \<longrightarrow> flatten m \<noteq> []))"


section \<open>Example data\<close>

definition loading_state :: vision where
  "loading_state = snd (loadModels (initial True))"

definition ready_state :: vision where
  "ready_state = resume 0 Loaded loading_state"

definition alice :: PersonProfile where
  "alice = \<lparr>id_profile = ''p-alice'', name = ''Alice'', images = [''a1'', ''a2''],
            createdAt = 0, descriptors = [[0], [1]]\<rparr>"

definition bob :: PersonProfile where
  "bob = \<lparr>id_profile = ''p-bob'', name = ''Bob'', images = [''b1'', ''b2''],
          createdAt = 0, descriptors = [[5], [6]]\<rparr>"

definition carol :: PersonProfile where
  "carol = \<lparr>id_profile = ''p-carol'', name = ''Carol'', images = [''c1''],
            createdAt = 0, descriptors = []\<rparr>"

definition matched_state :: vision where
  "matched_state = updateFaceMatcher ready_state [alice] (55 / 100)"

definition camera :: Video where
  "camera = \<lparr>paused = False, ended = False, videoWidth = 640, videoHeight = 480\<rparr>"

definition face :: Detection where
  "face = \<lparr>descriptor_of = [0],
           box_of = \<lparr>x_box = 64, y_box = 48, width_box = 128, height_box = 96\<rparr>\<rparr>"

definition seen :: "int \<Rightarrow> string \<Rightarrow> RecognitionLog" where
  "seen t who = \<lparr>id_log = ''log'', timestamp = t, personName = who, confidence_log = 90,
                 isUnknown = False\<rparr>"




section \<open>Properties of the descriptor store\<close>

lemma splice_js_beyond: "int (length xs) \<le> i \<Longrightarrow> splice_js i 1 xs = xs"
  by (simp add: splice_js_def Let_def)

lemma splice_js_from_end:
  assumes "i < 0" and "- int (length xs) \<le> i"
  shows "splice_js i 1 xs = take (nat (int (length xs) + i)) xs
                             @ drop (Suc (nat (int (length xs) + i))) xs"
proof -
  from assms have start: "max (int (length xs) + i) 0 = int (length xs) + i" by simp
  from assms have count: "min (max 1 0) (int (length xs) - (int (length xs) + i)) = (1::int)"
    by simp
  from assms have suc: "nat (int (length xs) + i + 1) = Suc (nat (int (length xs) + i))"
    by simp
  from assms(1) show ?thesis
    unfolding splice_js_def Let_def by (simp only: if_True start count suc)
qed

lemma splice_js_below: "i < - int (length xs) \<Longrightarrow> splice_js i 1 xs = drop 1 xs"
  by (cases xs) (auto simp add: splice_js_def Let_def max_def min_def)

lemma splice_js_negative:
  assumes "i < 0"
  shows "splice_js i 1 xs = take (nat (int (length xs) + i)) xs
                             @ drop (Suc (nat (int (length xs) + i))) xs"
proof (cases "- int (length xs) \<le> i")
  case True
  with assms show ?thesis by (rule splice_js_from_end)
next
  case False
  then have "splice_js i 1 xs = drop 1 xs" by (simp add: splice_js_below)
  moreover from False have "nat (int (length xs) + i) = 0" by simp
  ultimately show ?thesis by simp
qed

lemma splice_js_last: "splice_js (- 1) 1 xs = butlast xs"
proof (cases xs)
  case Nil
  then show ?thesis by (simp add: splice_js_def)
next
  case (Cons x ys)
  then have "- int (length xs) \<le> - 1" by simp
  then have "splice_js (- 1) 1 xs = take (nat (int (length xs) + - 1)) xs
                             @ drop (Suc (nat (int (length xs) + - 1))) xs"
    by (intro splice_js_from_end) simp
  with Cons show ?thesis by (simp add: butlast_conv_take)
qed


text \<open>
  C4, amended.  \<^verbatim>\<open>removeSampleFromProfile\<close> has no rejection path: its result is the new
  profile collection and nothing else.  For an index at or beyond the end of both the image
  and the descriptor sequence of every profile with the given id, the removal is silently
  ignored and the collection comes back unchanged.
\<close>

theorem removeSample_beyond_end_ignored:
  assumes "\<forall>p\<in>set profiles. id_profile p = profileId \<longrightarrow>
             int (length (images p)) \<le> index \<and> int (length (descriptors p)) \<le> index"
  shows "removeSampleFromProfile profileId index profiles = profiles"
proof -
  have "(if id_profile p = profileId
         then p\<lparr>images := splice_js index 1 (images p),
                descriptors := splice_js index 1 (descriptors p)\<rparr>
         else p) = p" if "p \<in> set profiles" for p
    using that assms by (simp add: splice_js_beyond)
  then show ?thesis
    unfolding removeSampleFromProfile_def by (simp add: map_idI)
qed

text \<open>
  The claim as written asks for a rejection of every out-of-range index.  Index 5 on a
  profile with two samples is not rejected: the store is returned as it was.
\<close>

theorem removeSample_out_of_range_counterexample:
  "removeSampleFromProfile ''p-alice'' 5 [alice, bob] = [alice, bob]"
  by (simp add: removeSampleFromProfile_def splice_js_def alice_def bob_def)

theorem removeSample_beyond_end_ignored_witness:
  "id_profile alice = ''p-alice'' \<and> id_profile bob \<noteq> ''p-alice'' \<and>
   int (length (images alice)) \<le> 2 \<and> int (length (descriptors alice)) \<le> 2 \<and>
   removeSampleFromProfile ''p-alice'' 2 [alice, bob] = [alice, bob]"
proof -
  have beyond: "\<forall>p\<in>set [alice, bob]. id_profile p = ''p-alice'' \<longrightarrow>
       int (length (images p)) \<le> 2 \<and> int (length (descriptors p)) \<le> 2"
    by (simp add: alice_def bob_def)
  have "removeSampleFromProfile ''p-alice'' 2 [alice, bob] = [alice, bob]"
    using beyond by (rule removeSample_beyond_end_ignored)
  then show ?thesis by (simp add: alice_def bob_def)
qed


text \<open>
  C10, amended.  Following \<^verbatim>\<open>splice\<close>: an index at or beyond the number of stored
  descriptors leaves the descriptors unchanged, and the whole profile unchanged when it is
  also at or beyond the number of stored images; index \<open>-1\<close> deletes the last image and the
  last descriptor; a negative index deletes, in each sequence, the element counted from
  the end (the first one when the index reaches below the start).
\<close>

theorem removeSample_splice_semantics:
  "(int (length (descriptors p)) \<le> index \<longrightarrow>
      map descriptors (removeSampleFromProfile (id_profile p) index [p]) = [descriptors p]) \<and>
   (int (length (images p)) \<le> index \<and> int (length (descriptors p)) \<le> index \<longrightarrow>
      removeSampleFromProfile (id_profile p) index [p] = [p]) \<and>
   removeSampleFromProfile (id_profile p) (- 1) [p]
     = [p\<lparr>images := butlast (images p), descriptors := butlast (descriptors p)\<rparr>] \<and>
   (index < 0 \<longrightarrow>
      removeSampleFromProfile (id_profile p) index [p]
        = [p\<lparr>images := take (nat (int (length (images p)) + index)) (images p)
                        @ drop (Suc (nat (int (length (images p)) + index))) (images p),
              descriptors := take (nat (int (length (descriptors p)) + index)) (descriptors p)
                        @ drop (Suc (nat (int (length (descriptors p)) + index))) (descriptors p)\<rparr>])"
proof -
  have call: "removeSampleFromProfile (id_profile p) i [p]
                = [p\<lparr>images := splice_js i 1 (images p),
                      descriptors := splice_js i 1 (descriptors p)\<rparr>]" for i
    by (simp add: removeSampleFromProfile_def)
  have descriptors_kept:
    "map descriptors (removeSampleFromProfile (id_profile p) index [p]) = [descriptors p]"
    if "int (length (descriptors p)) \<le> index"
    using that by (simp add: call splice_js_beyond)
  have noop: "removeSampleFromProfile (id_profile p) index [p] = [p]"
    if "int (length (images p)) \<le> index \<and> int (length (descriptors p)) \<le> index"
    using that by (simp add: call splice_js_beyond)
  have last: "removeSampleFromProfile (id_profile p) (- 1) [p]
     = [p\<lparr>images := butlast (images p), descriptors := butlast (descriptors p)\<rparr>]"
    by (simp add: call splice_js_last)
  have from_end: "removeSampleFromProfile (id_profile p) index [p]
        = [p\<lparr>images := take (nat (int (length (images p)) + index)) (images p)
                        @ drop (Suc (nat (int (length (images p)) + index))) (images p),
              descriptors := take (nat (int (length (descriptors p)) + index)) (descriptors p)
                        @ drop (Suc (nat (int (length (descriptors p)) + index))) (descriptors p)\<rparr>]"
    if "index < 0"
    using that by (simp add: call splice_js_negative)
  from descriptors_kept noop last from_end show ?thesis by blast
qed

text \<open>
  A profile registered without a descriptor has one image and no descriptor.  Index 0 is
  then at the number of stored descriptors, and the removal still deletes the image.
\<close>

theorem removeSample_descriptor_count_counterexample:
  "addProfile ''p-carol'' ''Carol'' 0 ''c1'' None [] = [carol] \<and>
   int (length (descriptors carol)) \<le> 0 \<and>
   removeSampleFromProfile ''p-carol'' 0 [carol] = [carol\<lparr>images := []\<rparr>] \<and>
   removeSampleFromProfile ''p-carol'' 0 [carol] \<noteq> [carol]"
  by (simp add: addProfile_def removeSampleFromProfile_def splice_js_def carol_def)

theorem removeSample_splice_semantics_witness:
  "int (length (images alice)) \<le> 2 \<and> int (length (descriptors alice)) \<le> 2 \<and>
   removeSampleFromProfile ''p-alice'' 2 [alice] = [alice] \<and>
   removeSampleFromProfile ''p-alice'' (- 1) [alice]
     = [alice\<lparr>images := [''a1''], descriptors := [[0]]\<rparr>] \<and>
   - 2 < (0::int) \<and>
   removeSampleFromProfile ''p-alice'' (- 2) [alice]
     = [alice\<lparr>images := [''a2''], descriptors := [[1]]\<rparr>]"
proof -
  have pid: "id_profile alice = ''p-alice''" by (simp add: alice_def)
  have sizes: "int (length (images alice)) \<le> 2 \<and> int (length (descriptors alice)) \<le> 2"
    by (simp add: alice_def)
  have neg: "- 2 < (0::int)" by simp
  from removeSample_splice_semantics [of alice 2] sizes
  have a: "removeSampleFromProfile ''p-alice'' 2 [alice] = [alice]"
    and b: "removeSampleFromProfile ''p-alice'' (- 1) [alice]
       = [alice\<lparr>images := butlast (images alice), descriptors := butlast (descriptors alice)\<rparr>]"
    unfolding pid by blast+
  from removeSample_splice_semantics [of alice "- 2"] neg
  have c: "removeSampleFromProfile ''p-alice'' (- 2) [alice]
        = [alice\<lparr>images := take (nat (int (length (images alice)) + - 2)) (images alice)
                        @ drop (Suc (nat (int (length (images alice)) + - 2))) (images alice),
              descriptors := take (nat (int (length (descriptors alice)) + - 2)) (descriptors alice)
                        @ drop (Suc (nat (int (length (descriptors alice)) + - 2))) (descriptors alice)\<rparr>]"
    unfolding pid by blast
  have d: "butlast (images alice) = [''a1'']" "butlast (descriptors alice) = [[0]]"
    "take (nat (int (length (images alice)) + - 2)) (images alice)
       @ drop (Suc (nat (int (length (images alice)) + - 2))) (images alice) = [''a2'']"
    "take (nat (int (length (descriptors alice)) + - 2)) (descriptors alice)
       @ drop (Suc (nat (int (length (descriptors alice)) + - 2))) (descriptors alice) = [[1]]"
    by (simp_all add: alice_def)
  from a b c sizes neg show ?thesis unfolding d by simp
qed


section \<open>Properties of the recognition log\<close>

lemma addLogWithin_cases:
  "addLogWithin W e prev = prev \<or> addLogWithin W e prev = e # take 199 prev"
  by (auto simp: addLogWithin_def split: list.splits)

lemma addLogWithin_length: "length prev \<le> 200 \<Longrightarrow> length (addLogWithin W e prev) \<le> 200"
  by (auto simp: addLogWithin_def split: list.splits)

lemma take_199_full: "length prev = 200 \<Longrightarrow> take 199 prev = butlast prev"
  by (simp add: butlast_conv_take)





lemma runLogs_snoc: "runLogs W (events @ [e]) = addLogWithin W e (runLogs W events)"
  by (simp add: runLogs_def)

lemma runLogs_length: "length (runLogs W events) \<le> 200"
proof (induction events rule: rev_induct)
  case Nil
  show ?case by (simp add: runLogs_def)
next
  case (snoc e events)
  then show ?case by (simp add: runLogs_snoc addLogWithin_length)
qed


text \<open>
  C9.  Every log reached through \<^verbatim>\<open>addLog\<close> has at most 200 entries; a call either leaves
  the log as it is or puts the event at the front; and an event admitted into a log of 200
  entries drops the oldest, the last one.
\<close>

theorem log_bounded_newest_first:
  "length (runLogs W events) \<le> 200 \<and>
   (addLogWithin W e prev = prev \<or> addLogWithin W e prev = e # take 199 prev) \<and>
   (length prev = 200 \<longrightarrow> addLogWithin W e prev \<noteq> prev \<longrightarrow>
      addLogWithin W e prev = e # butlast prev)"
proof -
  have bounded: "length (runLogs W events) \<le> 200" by (rule runLogs_length)
  have front: "addLogWithin W e prev = prev \<or> addLogWithin W e prev = e # take 199 prev"
    by (rule addLogWithin_cases)
  have evict: "addLogWithin W e prev = e # butlast prev"
    if "length prev = 200" and "addLogWithin W e prev \<noteq> prev"
    using front that by (simp add: take_199_full)
  from bounded front evict show ?thesis by blast
qed

theorem log_bounded_newest_first_witness:
  "length (replicate 200 (seen 0 ''Alice'')) = 200 \<and>
   addLog (seen 5000 ''Bob'') (replicate 200 (seen 0 ''Alice'')) \<noteq> replicate 200 (seen 0 ''Alice'') \<and>
   addLog (seen 5000 ''Bob'') (replicate 200 (seen 0 ''Alice''))
     = seen 5000 ''Bob'' # replicate 199 (seen 0 ''Alice'')"
proof -
  have full: "length (replicate 200 (seen 0 ''Alice'')) = 200" by simp
  have unfold: "replicate 200 (seen 0 ''Alice'') = seen 0 ''Alice'' # replicate 199 (seen 0 ''Alice'')"
    by (simp add: replicate_Suc [symmetric] del: replicate_Suc)
  have admitted: "addLogWithin 1500 (seen 5000 ''Bob'') (replicate 200 (seen 0 ''Alice''))
                    \<noteq> replicate 200 (seen 0 ''Alice'')"
    unfolding unfold by (simp add: addLogWithin_def seen_def)
  from log_bounded_newest_first [of 1500 "[]" "seen 5000 ''Bob''" "replicate 200 (seen 0 ''Alice'')"]
    full admitted
  have "addLogWithin 1500 (seen 5000 ''Bob'') (replicate 200 (seen 0 ''Alice''))
          = seen 5000 ''Bob'' # butlast (replicate 200 (seen 0 ''Alice''))" by blast
  then show ?thesis using full admitted by (simp add: addLog_def butlast_conv_take)
qed


section \<open>Invariants of the module state\<close>

lemma foldl_count:
  "foldl (\<lambda>acc p. acc + int (length (descriptors p))) a ps
     = a + (\<Sum>p\<leftarrow>ps. int (length (descriptors p)))"
  by (induction ps arbitrary: a) auto

lemma currentDescriptorCount_sum:
  "currentDescriptorCount ps = (\<Sum>p\<leftarrow>ps. int (length (descriptors p)))"
  by (simp add: currentDescriptorCount_def foldl_count)

lemma currentDescriptorCount_nonneg: "0 \<le> currentDescriptorCount ps"
  unfolding currentDescriptorCount_sum by (induction ps) auto

lemma currentDescriptorCount_zero_iff:
  "(currentDescriptorCount ps \<le> 0) = (\<forall>p\<in>set ps. descriptors p = [])"
  unfolding currentDescriptorCount_sum
proof (induction ps)
  case Nil
  then show ?case by simp
next
  case (Cons p ps)
  have "0 \<le> (\<Sum>p\<leftarrow>ps. int (length (descriptors p)))"
    using currentDescriptorCount_nonneg [of ps] by (simp add: currentDescriptorCount_sum)
  with Cons show ?case by auto
qed

lemma labeledDescriptorsOf_empty_iff:
  "(labeledDescriptorsOf ps = []) = (\<forall>p\<in>set ps. descriptors p = [])"
  by (auto simp: labeledDescriptorsOf_def filter_empty_conv)

lemma flatten_labeledDescriptorsOf:
  "labeledDescriptorsOf ps \<noteq> [] \<Longrightarrow>
     flatten \<lparr>labeledDescriptors = labeledDescriptorsOf ps, distanceThreshold = t\<rparr> \<noteq> []"
  by (auto simp: flatten_def labeledDescriptorsOf_def filter_empty_conv)

lemma updateFaceMatcher_matcher_inv:
  "matcher_inv s \<Longrightarrow> matcher_inv (updateFaceMatcher s ps t)"
  using currentDescriptorCount_nonneg [of ps] currentDescriptorCount_zero_iff [of ps]
    labeledDescriptorsOf_empty_iff [of ps] flatten_labeledDescriptorsOf [of ps t]
  by (auto simp: matcher_inv_def updateFaceMatcher_def)

lemma updateFaceMatcher_loader_fields:
  "loader_inv s \<Longrightarrow> loader_inv (updateFaceMatcher s ps t)"
  by (auto simp: loader_inv_def updateFaceMatcher_def)

lemma detectFacesReal_state:
  "snd (detectFacesReal s video ds ps t) = s \<or> snd (detectFacesReal s video ds ps t) = updateFaceMatcher s ps t"
  by (auto simp: detectFacesReal_def Let_def split: option.splits sum.splits)

lemma detectFacesReal_updates:
  "isCriticalModelsLoaded s \<Longrightarrow> faceapi_defined s \<Longrightarrow> \<not> paused v \<Longrightarrow> \<not> ended v \<Longrightarrow>
   detections \<noteq> [] \<Longrightarrow>
   snd (detectFacesReal s (Some v) detections profiles threshold)
     = updateFaceMatcher s profiles threshold"
  by (simp add: detectFacesReal_def Let_def split: sum.splits)

lemma MODEL_URLS_Cons: "\<exists>u us. MODEL_URLS = u # us"
  by (simp add: MODEL_URLS_def)

lemma loadModels_state:
  "snd (loadModels s) = s \<or>
   (faceapi_defined s \<and> \<not> isCriticalModelsLoaded s \<and> loadingPromise s = None \<and>
    (\<exists>u us. MODEL_URLS = u # us \<and>
       snd (loadModels s) =
         s\<lparr>nextPromise := Suc (nextPromise s), requested := requested s @ [u],
           suspended := (nextPromise s, u # us) # suspended s,
           loadingPromise := Some (nextPromise s)\<rparr>))"
proof -
  obtain u us where urls: "MODEL_URLS = u # us" using MODEL_URLS_Cons by blast
  show ?thesis
    by (simp add: loadModels_def Let_def urls split: option.splits)
qed

lemma suspended_cases:
  "loader_inv s \<Longrightarrow> suspended s = [] \<or> (\<exists>pr url rest. suspended s = [(pr, url # rest)])"
proof -
  assume inv: "loader_inv s"
  then have "length (suspended s) \<le> 1" by (simp add: loader_inv_def)
  then have "suspended s = [] \<or> (\<exists>e. suspended s = [e])"
    by (cases "suspended s") (auto simp: length_Suc_conv)
  then show ?thesis
  proof
    assume "suspended s = []" then show ?thesis by simp
  next
    assume "\<exists>e. suspended s = [e]"
    then obtain pr urls where e: "suspended s = [(pr, urls)]" by (cases "hd (suspended s)") auto
    with inv have "urls \<noteq> []" by (simp add: loader_inv_def)
    with e show ?thesis by (cases urls) auto
  qed
qed

lemma loadModels_loader_inv: "loader_inv s \<Longrightarrow> loader_inv (snd (loadModels s))"
  using loadModels_state [of s]
proof
  assume "loader_inv s" "snd (loadModels s) = s"
  then show ?thesis by simp
next
  assume inv: "loader_inv s" and
    "faceapi_defined s \<and> \<not> isCriticalModelsLoaded s \<and> loadingPromise s = None \<and>
    (\<exists>u us. MODEL_URLS = u # us \<and>
       snd (loadModels s) =
         s\<lparr>nextPromise := Suc (nextPromise s), requested := requested s @ [u],
           suspended := (nextPromise s, u # us) # suspended s,
           loadingPromise := Some (nextPromise s)\<rparr>)"
  then obtain u us where new: "faceapi_defined s" "\<not> isCriticalModelsLoaded s" "loadingPromise s = None"
     "snd (loadModels s) =
         s\<lparr>nextPromise := Suc (nextPromise s), requested := requested s @ [u],
           suspended := (nextPromise s, u # us) # suspended s,
           loadingPromise := Some (nextPromise s)\<rparr>" by blast
  from suspended_cases [OF inv] inv new(3) have none: "suspended s = []"
    by (auto simp: loader_inv_def)
  from inv have lt: "\<forall>pr\<in>fst ` set (settled s). pr < nextPromise s"
    by (simp add: loader_inv_def)
  then have fresh: "nextPromise s \<notin> fst ` set (settled s)" by blast
  from lt have lt': "\<forall>pr\<in>fst ` set (settled s). pr < Suc (nextPromise s)"
    by (auto simp: less_Suc_eq)
  show ?thesis unfolding new(4) using new(1,2) none fresh lt'
    by (simp add: loader_inv_def)
qed

lemma loadModels_matcher_inv: "matcher_inv s \<Longrightarrow> matcher_inv (snd (loadModels s))"
  using loadModels_state [of s] by (auto simp: matcher_inv_def)

lemma resume_not_suspended: "map_of (suspended s) pr = None \<Longrightarrow> resume pr outcome s = s"
  by (simp add: resume_def)

lemma resume_single:
  "suspended s = [(pr, url # rest)] \<Longrightarrow>
     resume pr outcome s =
       (if outcome = Loaded
        then s\<lparr>suspended := [], isCriticalModelsLoaded := True,
               background := background s @ [url], settled := (pr, True) # settled s\<rparr>
        else loadLoop pr rest (s\<lparr>suspended := []\<rparr>))"
  by (simp add: resume_def loadDemographicsBackground_def Let_def)

lemma resume_cases:
  assumes "loader_inv s"
  shows "resume pr outcome s = s \<or> (\<exists>url rest. suspended s = [(pr, url # rest)])"
  using suspended_cases [OF assms]
proof
  assume "suspended s = []"
  then show ?thesis by (simp add: resume_not_suspended)
next
  assume "\<exists>p url rest. suspended s = [(p, url # rest)]"
  then obtain p url rest where p: "suspended s = [(p, url # rest)]" by blast
  show ?thesis
  proof (cases "p = pr")
    case True
    with p show ?thesis by simp
  next
    case False
    with p show ?thesis by (simp add: resume_not_suspended)
  qed
qed

lemma loadLoop_loader_inv_last:
  assumes "loader_inv s" and "suspended s = [(pr, [url])]"
  shows "loader_inv (loadLoop pr [] (s\<lparr>suspended := []\<rparr>))"
  using assms by (simp add: loader_inv_def)

lemma loadLoop_loader_inv_next:
  assumes "loader_inv s" and "suspended s = [(pr, url # u # us)]"
  shows "loader_inv (loadLoop pr (u # us) (s\<lparr>suspended := []\<rparr>))"
  using assms by (simp add: loader_inv_def)

lemma loaded_loader_inv:
  assumes "loader_inv s" and "suspended s = [(pr, url # rest)]"
  shows "loader_inv (s\<lparr>suspended := [], isCriticalModelsLoaded := True,
               background := background s @ [url], settled := (pr, True) # settled s\<rparr>)"
  using assms by (simp add: loader_inv_def)

lemma resume_loader_inv:
  assumes "loader_inv s"
  shows "loader_inv (resume pr outcome s)"
proof -
  from resume_cases [OF assms, of pr outcome] show ?thesis
  proof
    assume "resume pr outcome s = s"
    with assms show ?thesis by simp
  next
    assume "\<exists>url rest. suspended s = [(pr, url # rest)]"
    then obtain url rest where susp: "suspended s = [(pr, url # rest)]" by blast
    show ?thesis
    proof (cases "outcome = Loaded")
      case True
      with susp assms show ?thesis by (simp add: resume_single loaded_loader_inv)
    next
      case False
      with susp assms show ?thesis
        by (cases rest) (simp_all add: resume_single loadLoop_loader_inv_last loadLoop_loader_inv_next del: loadLoop.simps)
    qed
  qed
qed

lemma loadLoop_matcher_fields:
  "isCriticalModelsLoaded (loadLoop pr urls s) = isCriticalModelsLoaded s \<and>
   faceMatcher (loadLoop pr urls s) = faceMatcher s \<and>
   lastDescriptorCount (loadLoop pr urls s) = lastDescriptorCount s"
  by (cases urls) auto

lemma resume_matcher_inv:
  assumes "loader_inv s" and "matcher_inv s"
  shows "matcher_inv (resume pr outcome s)"
proof -
  from resume_cases [OF assms(1), of pr outcome] show ?thesis
  proof
    assume "resume pr outcome s = s"
    with assms show ?thesis by simp
  next
    assume "\<exists>url rest. suspended s = [(pr, url # rest)]"
    then obtain url rest where susp: "suspended s = [(pr, url # rest)]" by blast
    with assms(2) show ?thesis
      by (simp add: resume_single matcher_inv_def loadLoop_matcher_fields del: loadLoop.simps)
  qed
qed

lemma demographicsSettled_loader_inv: "loader_inv s \<Longrightarrow> loader_inv (demographicsSettled url ok s)"
  by (simp add: loader_inv_def demographicsSettled_def)

lemma demographicsSettled_matcher_inv: "matcher_inv s \<Longrightarrow> matcher_inv (demographicsSettled url ok s)"
  by (simp add: matcher_inv_def demographicsSettled_def)


lemma faceapi_arrives_inv:
  "loader_inv s \<Longrightarrow> matcher_inv s \<Longrightarrow>
     loader_inv (s\<lparr>faceapi_defined := True\<rparr>) \<and> matcher_inv (s\<lparr>faceapi_defined := True\<rparr>)"
  by (simp add: loader_inv_def matcher_inv_def)

lemma initial_inv: "loader_inv (initial present) \<and> matcher_inv (initial present)"
  by (simp add: loader_inv_def matcher_inv_def initial_def)


lemma reachable_inv: "reachable s \<Longrightarrow> loader_inv s \<and> matcher_inv s"
proof (induction rule: reachable.induct)
  case (start present)
  show ?case by (rule initial_inv)
next
  case (faceapi_arrives s)
  then show ?case by (simp add: faceapi_arrives_inv)
next
  case (call_loadModels s)
  then show ?case by (simp add: loadModels_loader_inv loadModels_matcher_inv)
next
  case (attempt_settles s pr outcome)
  then show ?case by (simp add: resume_loader_inv resume_matcher_inv)
next
  case (demographics_settle s url ok)
  then show ?case by (simp add: demographicsSettled_loader_inv demographicsSettled_matcher_inv)
next
  case (call_detectFacesReal s video detections profiles threshold)
  from detectFacesReal_state [of s video detections profiles threshold] show ?case
  proof
    assume "snd (detectFacesReal s video detections profiles threshold) = s"
    with call_detectFacesReal.IH show ?thesis by simp
  next
    assume "snd (detectFacesReal s video detections profiles threshold)
              = updateFaceMatcher s profiles threshold"
    with call_detectFacesReal.IH show ?thesis
      by (simp add: updateFaceMatcher_matcher_inv updateFaceMatcher_loader_fields)
  qed
qed

section \<open>Example states\<close>

lemma loading_state_eq:
  "loading_state = (initial True)\<lparr>nextPromise := 1, requested := [hd MODEL_URLS],
       suspended := [(0, MODEL_URLS)], loadingPromise := Some 0\<rparr>"
  by (simp add: loading_state_def loadModels_def initial_def Let_def MODEL_URLS_def)

lemma ready_state_eq:
  "ready_state = loading_state\<lparr>suspended := [], isCriticalModelsLoaded := True,
       background := [hd MODEL_URLS], settled := [(0, True)]\<rparr>"
  by (simp add: ready_state_def loading_state_eq resume_def loadDemographicsBackground_def
      initial_def Let_def MODEL_URLS_def)

lemma reachable_loading_state: "reachable loading_state"
  unfolding loading_state_def by (intro reachable.call_loadModels reachable.start)

lemma reachable_ready_state: "reachable ready_state"
  unfolding ready_state_def by (intro reachable.attempt_settles reachable_loading_state)

lemma ready_state_fields:
  "isCriticalModelsLoaded ready_state" "faceapi_defined ready_state"
  "faceMatcher ready_state = None" "lastDescriptorCount ready_state = - 1"
  by (simp_all add: ready_state_eq loading_state_eq initial_def)

lemma reachable_matched_state: "reachable matched_state"
proof -
  have "snd (detectFacesReal ready_state (Some camera) [face] [alice] (55 / 100)) = matched_state"
    unfolding matched_state_def
    by (rule detectFacesReal_updates) (simp_all add: ready_state_fields camera_def)
  with reachable.call_detectFacesReal [OF reachable_ready_state] show ?thesis by metis
qed

lemma matched_state_eq:
  "matched_state = ready_state\<lparr>faceMatcher :=
       Some \<lparr>labeledDescriptors = [(''Alice'', [[0], [1]])], distanceThreshold = 55 / 100\<rparr>,
     lastDescriptorCount := 2\<rparr>"
  by (simp add: matched_state_def updateFaceMatcher_def ready_state_fields
      currentDescriptorCount_def labeledDescriptorsOf_def alice_def)


section \<open>Properties of the resource loader\<close>

lemma loadModels_ready:
  "faceapi_defined s \<Longrightarrow> isCriticalModelsLoaded s \<Longrightarrow> loadModels s = (Immediate True, s)"
  by (simp add: loadModels_def)

lemma loadModels_in_flight:
  "faceapi_defined s \<Longrightarrow> \<not> isCriticalModelsLoaded s \<Longrightarrow> loadingPromise s = Some pr
     \<Longrightarrow> loadModels s = (Cached pr, s)"
  by (simp add: loadModels_def)


text \<open>
  C2.  In every reachable state: if the critical models are ready, \<^verbatim>\<open>loadModels\<close> returns a
  promise already resolved to true and changes nothing (no source is asked); if an
  acquisition is in flight, \<^verbatim>\<open>loadModels\<close> returns the promise cached in \<^verbatim>\<open>loadingPromise\<close>,
  which is that acquisition's own, still pending promise, and again changes nothing; and
  there is never more than one acquisition in flight.
\<close>

theorem loadModels_no_second_acquisition:
  assumes "reachable s"
  shows "(isCriticalModelsLoaded s \<longrightarrow> loadModels s = (Immediate True, s)) \<and>
         (\<forall>pr urls. (pr, urls) \<in> set (suspended s) \<longrightarrow>
             loadModels s = (Cached pr, s) \<and> loadingPromise s = Some pr \<and>
             pr \<notin> fst ` set (settled s)) \<and>
         length (suspended s) \<le> 1"
proof -
  from assms have inv: "loader_inv s" by (simp add: reachable_inv)
  then have ready: "isCriticalModelsLoaded s \<longrightarrow> loadModels s = (Immediate True, s)"
    by (simp add: loader_inv_def loadModels_ready)
  have flight: "loadModels s = (Cached pr, s) \<and> loadingPromise s = Some pr \<and>
             pr \<notin> fst ` set (settled s)" if "(pr, urls) \<in> set (suspended s)" for pr urls
  proof -
    from that suspended_cases [OF inv] have "suspended s = [(pr, urls)]" by auto
    with inv have "loadingPromise s = Some pr" "faceapi_defined s" "\<not> isCriticalModelsLoaded s"
      "pr \<notin> fst ` set (settled s)" by (simp_all add: loader_inv_def)
    then show ?thesis by (simp add: loadModels_in_flight)
  qed
  from inv have "length (suspended s) \<le> 1" by (simp add: loader_inv_def)
  with ready flight show ?thesis by blast
qed

theorem loadModels_no_second_acquisition_witness:
  "reachable loading_state \<and> (0, MODEL_URLS) \<in> set (suspended loading_state) \<and>
   loadModels loading_state = (Cached 0, loading_state) \<and>
   reachable ready_state \<and> isCriticalModelsLoaded ready_state \<and>
   loadModels ready_state = (Immediate True, ready_state)"
proof -
  have susp: "(0, MODEL_URLS) \<in> set (suspended loading_state)"
    by (simp add: loading_state_eq)
  from loadModels_no_second_acquisition [OF reachable_loading_state] susp
  have "loadModels loading_state = (Cached 0, loading_state)" by blast
  moreover from loadModels_no_second_acquisition [OF reachable_ready_state]
  have "loadModels ready_state = (Immediate True, ready_state)"
    by (simp add: ready_state_fields)
  ultimately show ?thesis
    using susp reachable_loading_state reachable_ready_state by (simp add: ready_state_fields)
qed

lemma resumeAll_all_fail:
  "suspended s = [(pr, url # rest)] \<Longrightarrow> length outcomes = Suc (length rest) \<Longrightarrow>
   Loaded \<notin> set outcomes \<Longrightarrow>
   resumeAll pr outcomes s =
     s\<lparr>suspended := [], requested := requested s @ rest, loadingPromise := None,
       settled := (pr, False) # settled s\<rparr>"
proof (induction rest arbitrary: s url outcomes)
  case Nil
  then obtain outcome where "outcomes = [outcome]" "outcome \<noteq> Loaded"
    by (cases outcomes) auto
  with Nil show ?case by (simp add: resume_single)
next
  case (Cons u us)
  then obtain outcome os where os: "outcomes = outcome # os" "outcome \<noteq> Loaded"
    "length os = Suc (length us)" "Loaded \<notin> set os"
    by (cases outcomes) auto
  let ?s' = "resume pr outcome s"
  from Cons.prems(1) os(2) have s': "?s' = s\<lparr>suspended := [(pr, u # us)], requested := requested s @ [u]\<rparr>"
    by (simp add: resume_single)
  then have "suspended ?s' = [(pr, u # us)]" by simp
  from Cons.IH [OF this os(3,4)] show ?case
    unfolding os(1) by (simp add: s')
qed


text \<open>
  C6.  From an unloaded state, when every source of \<^verbatim>\<open>MODEL_URLS\<close> fails or times out, the
  promise of the acquisition resolves to false, each source has been asked once in order,
  \<^verbatim>\<open>loadingPromise\<close> is clear again and nothing is left in flight; the next call of
  \<^verbatim>\<open>loadModels\<close> starts a new acquisition with a new promise, asking the first source again.
\<close>

theorem loadModels_all_sources_fail:
  assumes "reachable s" and "faceapi_defined s" and "\<not> isCriticalModelsLoaded s"
    and "loadingPromise s = None"
    and "length outcomes = length MODEL_URLS" and "Loaded \<notin> set outcomes"
  shows "\<exists>pr s1 s2 pr' s3.
           loadModels s = (Cached pr, s1) \<and> s2 = resumeAll pr outcomes s1 \<and>
           (pr, False) \<in> set (settled s2) \<and> \<not> isCriticalModelsLoaded s2 \<and>
           loadingPromise s2 = None \<and> suspended s2 = [] \<and>
           requested s2 = requested s @ MODEL_URLS \<and>
           loadModels s2 = (Cached pr', s3) \<and> pr' \<noteq> pr \<and>
           suspended s3 = [(pr', MODEL_URLS)] \<and>
           requested s3 = requested s2 @ [hd MODEL_URLS]"
proof -
  obtain u us where urls: "MODEL_URLS = u # us" using MODEL_URLS_Cons by blast
  from assms(1) have inv: "loader_inv s" by (simp add: reachable_inv)
  with suspended_cases [OF inv] assms(4) have none: "suspended s = []"
    by (auto simp: loader_inv_def)
  let ?pr = "nextPromise s"
  let ?s1 = "s\<lparr>nextPromise := Suc ?pr, requested := requested s @ [u],
               suspended := [(?pr, u # us)], loadingPromise := Some ?pr\<rparr>"
  have call1: "loadModels s = (Cached ?pr, ?s1)"
    using assms(2,3,4) none by (simp add: loadModels_def Let_def urls)
  let ?s2 = "resumeAll ?pr outcomes ?s1"
  have s2: "?s2 = ?s1\<lparr>suspended := [], requested := requested ?s1 @ us, loadingPromise := None,
       settled := (?pr, False) # settled ?s1\<rparr>"
    using assms(5,6) by (intro resumeAll_all_fail [where url = u]) (simp_all add: urls)
  let ?s3 = "?s2\<lparr>nextPromise := Suc (Suc ?pr), requested := requested ?s2 @ [u],
               suspended := [(Suc ?pr, u # us)], loadingPromise := Some (Suc ?pr)\<rparr>"
  have call2: "loadModels ?s2 = (Cached (Suc ?pr), ?s3)"
    using assms(2,3) by (simp add: s2 loadModels_def Let_def urls)
  show ?thesis
    apply (rule exI [where x = ?pr], rule exI [where x = ?s1], rule exI [where x = ?s2],
        rule exI [where x = "Suc ?pr"], rule exI [where x = ?s3])
    apply (intro conjI call1 call2 refl)
    using assms(3) apply (simp_all add: s2 urls)
    done
qed

theorem loadModels_all_sources_fail_witness:
  "reachable (initial True) \<and> faceapi_defined (initial True) \<and>
   \<not> isCriticalModelsLoaded (initial True) \<and> loadingPromise (initial True) = None \<and>
   length [LoadError, Timeout, LoadError] = length MODEL_URLS \<and>
   Loaded \<notin> set [LoadError, Timeout, LoadError] \<and>
   (\<exists>pr s1 s2 pr' s3.
       loadModels (initial True) = (Cached pr, s1) \<and>
       s2 = resumeAll pr [LoadError, Timeout, LoadError] s1 \<and>
       (pr, False) \<in> set (settled s2) \<and> \<not> isCriticalModelsLoaded s2 \<and>
       loadingPromise s2 = None \<and> suspended s2 = [] \<and>
       requested s2 = requested (initial True) @ MODEL_URLS \<and>
       loadModels s2 = (Cached pr', s3) \<and> pr' \<noteq> pr \<and>
       suspended s3 = [(pr', MODEL_URLS)] \<and>
       requested s3 = requested s2 @ [hd MODEL_URLS])"
proof -
  have fresh: "reachable (initial True)" by (rule reachable.start)
  have hyps: "faceapi_defined (initial True)"
    "\<not> isCriticalModelsLoaded (initial True)" "loadingPromise (initial True) = None"
    "length [LoadError, Timeout, LoadError] = length MODEL_URLS"
    "Loaded \<notin> set [LoadError, Timeout, LoadError]"
    by (simp_all add: initial_def MODEL_URLS_def)
  from loadModels_all_sources_fail [OF fresh hyps] fresh hyps show ?thesis by blast
qed


section \<open>Properties of the matcher cache\<close>

text \<open>
  C3.  \<^verbatim>\<open>updateFaceMatcher\<close> runs behind the \<^verbatim>\<open>isCriticalModelsLoaded\<close> guard of
  \<^verbatim>\<open>detectFacesReal\<close>.  There, if the total descriptor count differs from the recorded one,
  the handle is rebuilt from the current profiles and threshold and the count recorded; if
  the count is equal, the cache is returned exactly as it was, whatever the profiles and
  the threshold are now.
\<close>

theorem updateFaceMatcher_rebuild_iff_count:
  assumes "reachable s" and "isCriticalModelsLoaded s"
  shows "(currentDescriptorCount profiles \<noteq> lastDescriptorCount s \<longrightarrow>
            updateFaceMatcher s profiles threshold =
              s\<lparr>faceMatcher := freshMatcher profiles threshold,
                lastDescriptorCount := currentDescriptorCount profiles\<rparr>) \<and>
         (currentDescriptorCount profiles = lastDescriptorCount s \<longrightarrow>
            updateFaceMatcher s profiles threshold = s)"
proof -
  from assms(1) have linv: "loader_inv s" and minv: "matcher_inv s"
    by (simp_all add: reachable_inv)
  from linv assms(2) have present: "faceapi_defined s" by (simp add: loader_inv_def)
  have differs: "updateFaceMatcher s profiles threshold =
              s\<lparr>faceMatcher := freshMatcher profiles threshold,
                lastDescriptorCount := currentDescriptorCount profiles\<rparr>"
    if "currentDescriptorCount profiles \<noteq> lastDescriptorCount s"
    using that present assms(2) by (simp add: updateFaceMatcher_def freshMatcher_def)
  have equal: "updateFaceMatcher s profiles threshold = s"
    if eq: "currentDescriptorCount profiles = lastDescriptorCount s"
  proof (cases "faceMatcher s")
    case (Some m)
    with eq show ?thesis by (simp add: updateFaceMatcher_def)
  next
    case None
    with minv have "lastDescriptorCount s \<le> 0" by (simp add: matcher_inv_def)
    with eq have le: "currentDescriptorCount profiles \<le> 0" by simp
    then have "labeledDescriptorsOf profiles = []"
      by (simp add: currentDescriptorCount_zero_iff labeledDescriptorsOf_empty_iff)
    with None eq show ?thesis by (simp add: updateFaceMatcher_def)
  qed
  from differs equal show ?thesis by blast
qed


text \<open>
  The second half of the example: the cache was built for Alice's two vectors at threshold
  0.55; with Bob's two vectors and threshold 0.4 the count is the same, and the stale
  handle stays.
\<close>

theorem updateFaceMatcher_rebuild_iff_count_witness:
  "reachable ready_state \<and> isCriticalModelsLoaded ready_state \<and>
   currentDescriptorCount [alice] \<noteq> lastDescriptorCount ready_state \<and>
   updateFaceMatcher ready_state [alice] (55 / 100) = matched_state \<and>
   reachable matched_state \<and> isCriticalModelsLoaded matched_state \<and>
   currentDescriptorCount [bob] = lastDescriptorCount matched_state \<and>
   updateFaceMatcher matched_state [bob] (4 / 10) = matched_state \<and>
   faceMatcher matched_state \<noteq> freshMatcher [bob] (4 / 10)"
proof -
  have differs: "currentDescriptorCount [alice] \<noteq> lastDescriptorCount ready_state"
    by (simp add: ready_state_fields currentDescriptorCount_def alice_def)
  have same: "currentDescriptorCount [bob] = lastDescriptorCount matched_state"
    by (simp add: matched_state_eq currentDescriptorCount_def bob_def)
  have loaded: "isCriticalModelsLoaded matched_state"
    by (simp add: matched_state_eq ready_state_fields)
  have stale: "faceMatcher matched_state \<noteq> freshMatcher [bob] (4 / 10)"
    by (simp add: matched_state_eq freshMatcher_def labeledDescriptorsOf_def bob_def)
  from updateFaceMatcher_rebuild_iff_count [OF reachable_matched_state loaded, of "[bob]" "4 / 10"] same
  have kept: "updateFaceMatcher matched_state [bob] (4 / 10) = matched_state" by blast
  from updateFaceMatcher_rebuild_iff_count
         [OF reachable_ready_state ready_state_fields(1), of "[alice]" "55 / 100"] differs
  have "updateFaceMatcher ready_state [alice] (55 / 100) = matched_state"
    by (simp add: matched_state_def)
  with differs same loaded stale kept show ?thesis
    by (simp add: reachable_ready_state reachable_matched_state ready_state_fields)
qed

lemma matchFace_None: "matchFace None threshold probe = Inr (False, ''Unknown'', 0)"
  by (simp add: matchFace_def)

lemma mapResults_total:
  "(\<And>a. a \<in> set as \<Longrightarrow> f a = Inr (g a)) \<Longrightarrow> mapResults f as = Inr (map g as)"
  by (induction as) auto

lemma updateFaceMatcher_no_descriptors:
  assumes "reachable s" and "\<forall>p\<in>set profiles. descriptors p = []"
  shows "faceMatcher (updateFaceMatcher s profiles threshold) = None"
proof -
  from assms(1) have minv: "matcher_inv s" and linv: "loader_inv s"
    by (simp_all add: reachable_inv)
  from assms(2) have zero: "currentDescriptorCount profiles \<le> 0"
    and none: "labeledDescriptorsOf profiles = []"
    by (simp_all add: currentDescriptorCount_zero_iff labeledDescriptorsOf_empty_iff)
  show ?thesis
  proof (cases "faceMatcher s")
    case None
    with none show ?thesis by (simp add: updateFaceMatcher_def)
  next
    case (Some m)
    with minv have pos: "0 < lastDescriptorCount s" by (auto simp: matcher_inv_def)
    with minv have loaded: "isCriticalModelsLoaded s" by (auto simp: matcher_inv_def)
    with linv have present: "faceapi_defined s" by (simp add: loader_inv_def)
    from pos zero have "currentDescriptorCount profiles \<noteq> lastDescriptorCount s" by simp
    with none loaded present show ?thesis by (simp add: updateFaceMatcher_def)
  qed
qed


text \<open>
  C7.  When no profile has a descriptor, the handle after \<^verbatim>\<open>updateFaceMatcher\<close> is the
  no-matcher state, every probe is classified as not identified, \<open>Unknown\<close>, confidence 0,
  without an error, and a frame of \<^verbatim>\<open>detectFacesReal\<close> yields exactly such a result for
  each detection.
\<close>

theorem no_descriptors_everything_unknown:
  assumes "reachable s" and "\<forall>p\<in>set profiles. descriptors p = []"
  shows "faceMatcher (updateFaceMatcher s profiles threshold) = None \<and>
         matchFace (faceMatcher (updateFaceMatcher s profiles threshold)) threshold probe
           = Inr (False, ''Unknown'', 0) \<and>
         (isCriticalModelsLoaded s \<and> \<not> paused v \<and> \<not> ended v \<longrightarrow>
            fst (detectFacesReal s (Some v) detections profiles threshold)
              = map (\<lambda>d. \<lparr>identified = False, name_fd = ''Unknown'', confidence = 0,
                           box_2d = normalizeBox v (box_of d)\<rparr>) detections)"
proof -
  let ?s' = "updateFaceMatcher s profiles threshold"
  have none: "faceMatcher ?s' = None"
    using assms by (rule updateFaceMatcher_no_descriptors)
  have frame: "fst (detectFacesReal s (Some v) detections profiles threshold)
              = map (\<lambda>d. \<lparr>identified = False, name_fd = ''Unknown'', confidence = 0,
                           box_2d = normalizeBox v (box_of d)\<rparr>) detections"
    if ok: "isCriticalModelsLoaded s \<and> \<not> paused v \<and> \<not> ended v"
  proof -
    from assms(1) ok have present: "faceapi_defined s"
      by (simp add: reachable_inv [unfolded loader_inv_def])
    have "mapResults (detectOne (faceMatcher ?s') v threshold) detections
            = Inr (map (\<lambda>d. \<lparr>identified = False, name_fd = ''Unknown'', confidence = 0,
                           box_2d = normalizeBox v (box_of d)\<rparr>) detections)"
      by (rule mapResults_total) (simp add: detectOne_def none matchFace_None)
    with ok present show ?thesis
      by (cases detections) (simp_all add: detectFacesReal_def Let_def)
  qed
  from none frame show ?thesis by (simp add: matchFace_None)
qed

theorem no_descriptors_everything_unknown_witness:
  "reachable matched_state \<and> descriptors carol = [] \<and>
   faceMatcher (updateFaceMatcher matched_state [carol] (55 / 100)) = None \<and>
   isCriticalModelsLoaded matched_state \<and> \<not> paused camera \<and> \<not> ended camera \<and>
   fst (detectFacesReal matched_state (Some camera) [face] [carol] (55 / 100))
     = [\<lparr>identified = False, name_fd = ''Unknown'', confidence = 0,
         box_2d = [100, 100, 300, 300]\<rparr>]"
proof -
  have empty: "descriptors carol = []" by (simp add: carol_def)
  then have hyp: "\<forall>p\<in>set [carol]. descriptors p = []" by simp
  have ok: "isCriticalModelsLoaded matched_state \<and> \<not> paused camera \<and> \<not> ended camera"
    by (simp add: matched_state_eq ready_state_fields camera_def)
  have box: "normalizeBox camera (box_of face) = [100, 100, 300, 300]"
    by (simp add: normalizeBox_def camera_def face_def Let_def)
  from no_descriptors_everything_unknown
         [OF reachable_matched_state hyp, of "55 / 100" "[0]" camera "[face]"] ok box
  have "faceMatcher (updateFaceMatcher matched_state [carol] (55 / 100)) = None \<and>
    fst (detectFacesReal matched_state (Some camera) [face] [carol] (55 / 100))
     = [\<lparr>identified = False, name_fd = ''Unknown'', confidence = 0,
         box_2d = [100, 100, 300, 300]\<rparr>]" by simp
  with empty ok show ?thesis by (simp add: reachable_matched_state)
qed


section \<open>Properties of the classifier\<close>



lemma reachable_matcher_nonempty:
  "reachable s \<Longrightarrow> faceMatcher s = Some m \<Longrightarrow> flatten m \<noteq> []"
  using reachable_inv [of s] by (simp add: matcher_inv_def)



















lemma percent_range:
  fixes x :: real
  assumes "0 \<le> x" and "x \<le> 1"
  shows "0 \<le> \<lfloor>x * 100\<rfloor> \<and> \<lfloor>x * 100\<rfloor> \<le> 100"
proof -
  from assms have "0 \<le> x * 100" and "x * 100 \<le> 100" by simp_all
  then show ?thesis by (simp add: floor_le_iff)
qed


text \<open>
  C8.  For every threshold and every best match at a distance \<open>d \<ge> 0\<close> (below, at or above
  the threshold, zero, above one), the confidence of the result is an integer between 0
  and 100.
\<close>

theorem confidence_range:
  assumes "0 \<le> distance bestMatch"
  shows "0 \<le> snd (snd (matchResult threshold bestMatch)) \<and>
         snd (snd (matchResult threshold bestMatch)) \<le> 100"
proof (cases "distance bestMatch < threshold")
  case True
  with assms have pos: "0 < threshold" by simp
  with assms have "0 \<le> distance bestMatch / threshold" by simp
  then have "0 \<le> max 0 (1 - distance bestMatch / threshold)"
    and "max 0 (1 - distance bestMatch / threshold) \<le> 1" by simp_all
  then have "0 \<le> \<lfloor>max 0 (1 - distance bestMatch / threshold) * 100\<rfloor> \<and>
    \<lfloor>max 0 (1 - distance bestMatch / threshold) * 100\<rfloor> \<le> 100"
    by (rule percent_range)
  with True show ?thesis by (simp add: matchResult_def)
next
  case False
  from assms have "0 \<le> 1 - min 1 (distance bestMatch)"
    and "1 - min 1 (distance bestMatch) \<le> 1" by simp_all
  then have "0 \<le> \<lfloor>(1 - min 1 (distance bestMatch)) * 100\<rfloor> \<and>
    \<lfloor>(1 - min 1 (distance bestMatch)) * 100\<rfloor> \<le> 100"
    by (rule percent_range)
  with False show ?thesis by (simp add: matchResult_def)
qed

theorem confidence_range_witness:
  "0 \<le> distance \<lparr>label = ''Alice'', distance = 3 / 2\<rparr> \<and>
   0 \<le> snd (snd (matchResult (55 / 100) \<lparr>label = ''Alice'', distance = 3 / 2\<rparr>)) \<and>
   snd (snd (matchResult (55 / 100) \<lparr>label = ''Alice'', distance = 3 / 2\<rparr>)) \<le> 100"
proof -
  have far: "0 \<le> distance \<lparr>label = ''Alice'', distance = 3 / 2\<rparr>" by simp
  from confidence_range [OF far, of "55 / 100"] far show ?thesis by blast
qed


end
